theory Spec2Isabelle
  imports Complex_Main "HOL-Library.Sublist"
begin

section \<open>The service worker of nessie (assets/js/sw.js)\<close>

text \<open>
  The repository holds two revisions of the service worker and the loader's progress
  hooks. Both revisions register the same \<open>install\<close> and \<open>fetch\<close> handlers; they differ
  in the value of \<open>cacheName\<close>, and only the versioned one registers an \<open>activate\<close>
  handler.

  A request is identified by its URL: the stores hold GET requests, keyed by URL, and
  the requests of the model are the GET requests of the page. A response is left
  abstract (the type variable \<open>'r\<close>). A store (a \<open>Cache\<close>) is the list of its
  entries, the registry (\<open>caches\<close>, the \<open>CacheStorage\<close>) is the list of the named stores
  in the order of their creation, which is the order \<open>caches.keys()\<close> and
  \<open>caches.match()\<close> go through. The network is a parameter: \<open>None\<close> is a fetch that
  fails.
\<close>

type_synonym request = string
type_synonym 'r cache = "(request \<times> 'r) list"
type_synonym 'r cache_storage = "(string \<times> 'r cache) list"
type_synonym 'r network = "request \<Rightarrow> 'r option"

datatype error = TypeError

subsection \<open>The globals\<close>

text \<open>
  \<^verbatim>\<open>var cacheName = "nessie-pwa";\<close> in the unversioned revision,
  \<^verbatim>\<open>var cacheName = "nessie-pwa-" + (typeof __BUILD_ID__ !== 'undefined' ? __BUILD_ID__ : 'development');\<close>
  in the versioned one. The build identifier is substituted at build time; \<open>None\<close> is
  the build that leaves \<open>__BUILD_ID__\<close> undefined.
\<close>

datatype revision = Unversioned | Versioned "string option"

definition cacheName :: "revision \<Rightarrow> string" where
  "cacheName rv =
     (case rv of
        Unversioned \<Rightarrow> ''nessie-pwa''
      | Versioned build \<Rightarrow>
          ''nessie-pwa-'' @ (case build of Some build_id \<Rightarrow> build_id | None \<Rightarrow> ''development''))"

definition filesToCache :: "request list" where
  "filesToCache = [''./'', ''./index.html'', ''./nessie.js'', ''./nessie_bg.wasm'']"

subsection \<open>The platform: Cache Storage and the host's lifecycle\<close>

text \<open>
  Modelled from the spec: the Cache Store API (section 6: open-or-create by name,
  batch-insert a set of request specifiers, point lookup by request, enumerate all
  names, delete by name) is the browser's and is not in the repository. Each operation
  is atomic. A \<open>Cache\<close> object is a handle on a store of the registry, here its name.

  \<open>caches.keys()\<close> enumerates the names of the stores.
\<close>

definition caches_keys :: "'r cache_storage \<Rightarrow> string list" where
  "caches_keys st = map fst st"

text \<open>
  Modelled from the spec: \<open>caches.open(name)\<close>, open-or-create by name. An empty store
  is created at the end of the registry when the name has none.
\<close>

definition caches_open :: "string \<Rightarrow> 'r cache_storage \<Rightarrow> string \<times> 'r cache_storage" where
  "caches_open name st =
     (if name \<in> set (caches_keys st) then (name, st) else (name, st @ [(name, [])]))"

text \<open>
  Modelled from the spec: \<open>cache.put\<close>, the single write of the batch insert. An entry of
  the same request is replaced, a new one is appended.
\<close>

fun cache_put :: "request \<Rightarrow> 'r \<Rightarrow> 'r cache \<Rightarrow> 'r cache" where
  "cache_put q r [] = [(q, r)]"
| "cache_put q r ((k, v) # c) = (if k = q then (q, r) # c else (k, v) # cache_put q r c)"

text \<open>
  Modelled from the spec: \<open>cache.addAll(requests)\<close> (section 4.1, provision: a single
  batch fetch-and-store, all-or-nothing). Every request is fetched first; when one fetch
  fails the promise rejects with a \<open>TypeError\<close> and nothing is written; otherwise every
  response is put into the store the handle names.
\<close>

definition cache_addAll ::
  "'r network \<Rightarrow> request list \<Rightarrow> string \<Rightarrow> 'r cache_storage \<Rightarrow> (error + unit) \<times> 'r cache_storage" where
  "cache_addAll net reqs handle st =
     (case those (map net reqs) of
        None \<Rightarrow> (Inl TypeError, st)
      | Some rs \<Rightarrow>
          (Inr (),
           map (\<lambda>(name, c). if name = handle
                  then (name, fold (\<lambda>(q, r). cache_put q r) (zip reqs rs) c)
                  else (name, c)) st))"

text \<open>Modelled from the spec: \<open>cache.match(request)\<close>, the point lookup in one store.\<close>

definition cache_match :: "'r cache \<Rightarrow> request \<Rightarrow> 'r option" where
  "cache_match c q = map_of c q"

text \<open>
  Modelled from the spec: \<open>caches.match(request)\<close>. The receiver is the registry
  \<open>caches\<close> itself (the object of \<open>caches.open\<close>, \<open>caches.keys\<close> and \<open>caches.delete\<close>),
  not a store opened by name: the lookup goes through the stores in the order of their
  creation and answers with the first entry found.
\<close>

fun caches_match :: "'r cache_storage \<Rightarrow> request \<Rightarrow> 'r option" where
  "caches_match [] q = None"
| "caches_match ((name, c) # st) q =
     (case cache_match c q of Some r \<Rightarrow> Some r | None \<Rightarrow> caches_match st q)"

text \<open>
  Modelled from the spec: \<open>caches.delete(name)\<close> removes the whole store of that name;
  deleting a name that has no store is a no-op. The boolean it resolves to is not used
  by the handler.
\<close>

definition caches_delete :: "string \<Rightarrow> 'r cache_storage \<Rightarrow> 'r cache_storage" where
  "caches_delete name st = filter (\<lambda>(n, c). n \<noteq> name) st"

text \<open>\<open>String.prototype.startsWith\<close>.\<close>

definition startsWith :: "string \<Rightarrow> string \<Rightarrow> bool" where
  "startsWith s p = (take (length p) s = p)"

subsection \<open>The handlers\<close>

text \<open>
  \<^verbatim>\<open>
  self.addEventListener("install", function (e) {
    e.waitUntil(
      caches.open(cacheName).then(function (cache) {
        return cache.addAll(filesToCache);
      }),
    );
  });
  \<close>
  The result is the settlement of the promise handed to \<open>waitUntil\<close> and the registry
  afterwards.
\<close>

definition on_install ::
  "revision \<Rightarrow> 'r network \<Rightarrow> 'r cache_storage \<Rightarrow> (error + unit) \<times> 'r cache_storage" where
  "on_install rv net st =
     (case caches_open (cacheName rv) st of
        (cache, st1) \<Rightarrow> cache_addAll net filesToCache cache st1)"

text \<open>
  \<^verbatim>\<open>
  self.addEventListener('activate', event => {
    event.waitUntil(
      caches.keys().then(cacheNames => {
        return Promise.all(
          cacheNames.filter(name => name.startsWith('nessie-pwa-') && name !== cacheName)
                    .map(name => caches.delete(name))
        );
      })
    );
  });
  \<close>
  Only the versioned revision has this handler. The deletions are issued one per
  selected name; each is atomic, so they are run here in the order of the list.
\<close>

definition on_activate :: "revision \<Rightarrow> 'r cache_storage \<Rightarrow> 'r cache_storage" where
  "on_activate rv st =
     (case rv of
        Unversioned \<Rightarrow> st
      | Versioned build \<Rightarrow>
          fold caches_delete
            (filter (\<lambda>name. startsWith name ''nessie-pwa-'' \<and> name \<noteq> cacheName rv)
               (caches_keys st))
            st)"

text \<open>
  \<^verbatim>\<open>
  self.addEventListener("fetch", function (e) {
    e.respondWith(
      caches.match(e.request).then(function (response) {
        return response || fetch(e.request);
      }),
    );
  });
  \<close>
  The same in both revisions; \<open>cacheName\<close> does not occur in it. A response object is
  truthy, so \<open>fetch\<close> is called exactly when the lookup finds nothing. The result
  records the response the requester gets (\<open>None\<close>: the promise rejects and the request
  fails), the network fetches issued, and the registry afterwards.
\<close>

record 'r intercepted =
  responded :: "'r option"
  fetched :: "request list"
  registry :: "'r cache_storage"

definition on_fetch :: "'r network \<Rightarrow> 'r cache_storage \<Rightarrow> request \<Rightarrow> 'r intercepted" where
  "on_fetch net st q =
     (case caches_match st q of
        Some response \<Rightarrow> \<lparr>responded = Some response, fetched = [], registry = st\<rparr>
      | None \<Rightarrow> \<lparr>responded = net q, fetched = [q], registry = st\<rparr>)"

text \<open>
  Modelled from the spec: the host's lifecycle (section 4.1, state machine summary, and
  section 5), which is the browser's and not in the repository. The host awaits the
  promise of \<open>waitUntil\<close>: when the one of \<open>install\<close> rejects the worker is discarded
  and never activated; when it resolves the worker is installed, then activated, the
  \<open>activate\<close> handler run before the first request is intercepted.
\<close>

datatype worker_state = Installing | Installed | Activating | Activated | Redundant

text \<open>
  Modelled from the spec: the host dispatching \<open>install\<close> to a new worker and awaiting
  the promise of \<open>waitUntil\<close>.
\<close>

definition install_event ::
  "revision \<Rightarrow> 'r network \<Rightarrow> 'r cache_storage \<Rightarrow> worker_state \<times> 'r cache_storage" where
  "install_event rv net st =
     (case on_install rv net st of
        (Inl e, st1) \<Rightarrow> (Redundant, st1)
      | (Inr u, st1) \<Rightarrow> (Installed, st1))"

text \<open>
  Modelled from the spec: one deployment, from \<open>install\<close> to the active state. Only an
  installed worker is activated.
\<close>

definition deploy ::
  "revision \<Rightarrow> 'r network \<Rightarrow> 'r cache_storage \<Rightarrow> worker_state \<times> 'r cache_storage" where
  "deploy rv net st =
     (case install_event rv net st of
        (Installed, st1) \<Rightarrow> (Activated, on_activate rv st1)
      | (s, st1) \<Rightarrow> (s, st1))"

text \<open>
  The lookup the specification describes for the intercept phase: in the one store of a
  given name, as \<open>caches.open(name).then(c => c.match(q))\<close> would do without
  creating the store. No handler calls it; the theorems compare \<open>caches_match\<close> with it,
  and read a store's entries through it.
\<close>

definition store_lookup :: "string \<Rightarrow> 'r cache_storage \<Rightarrow> request \<Rightarrow> 'r option" where
  "store_lookup name st q =
     (case map_of st name of None \<Rightarrow> None | Some c \<Rightarrow> cache_match c q)"

section \<open>The loader's progress hooks\<close>

text \<open>
  \<^verbatim>\<open>
  export default function () {
    const progressContainer = document.getElementById("progress-container");
    const progressBar = document.getElementById("progress-bar");
    const progressText = document.getElementById("progress-text");
    return { onStart: ..., onProgress: ..., onComplete: ..., onSuccess: ..., onFailure: ... };
  }
  \<close>
  The hooks close over three elements of the host page, each \<open>null\<close> when the page has
  no element of that id. The state they act on is those elements (the properties the
  hooks assign: \<open>style.display\<close>, \<open>style.width\<close>, \<open>style.color\<close>, \<open>innerText\<close>) and the
  console; each hook takes the state and returns the new one.
\<close>

record element =
  display :: string
  width :: string
  color :: string
  innerText :: string

datatype console_call = Console_log string | Console_error string string

record page =
  progressContainer :: "element option"
  progressBar :: "element option"
  progressText :: "element option"
  console :: "console_call list"

subsection \<open>Numbers\<close>

text \<open>
  \<open>current\<close> and \<open>total\<close> are Numbers, that is binary64 values: not-a-number, the two
  infinities, and the finite ones, \<open>Finite m e\<close> standing for \<open>m * 2 ^ e\<close> (a value of
  the format: \<open>\<bar>m\<bar> \<le> 2 ^ 53\<close>, \<open>- 1074 \<le> e\<close>, magnitude below \<open>2 ^ 1024\<close>). A byte
  count \<open>n\<close> is \<open>Finite n 0\<close>. The sign of a zero is not kept: it shows in nothing that
  \<open>onProgress\<close> displays (the division is by a positive \<open>total\<close>, and the string of
  either zero is \<open>0\<close>).
\<close>

datatype number = NaN | PosInfinity | NegInfinity | Finite int int

function bit_length :: "int \<Rightarrow> int" where
  "bit_length n = (if n \<le> 0 then 0 else 1 + bit_length (n div 2))"
  by pat_completeness auto
termination
  by (relation "measure nat") auto

declare bit_length.simps [simp del]

function decimal_length :: "int \<Rightarrow> int" where
  "decimal_length n = (if n \<le> 0 then 0 else 1 + decimal_length (n div 10))"
  by pat_completeness auto
termination
  by (relation "measure nat") auto

declare decimal_length.simps [simp del]

definition shift :: "int \<Rightarrow> int \<Rightarrow> int" where
  "shift x k = x * 2 ^ nat k"

definition shift10 :: "int \<Rightarrow> int \<Rightarrow> int" where
  "shift10 x k = x * 10 ^ nat k"

text \<open>
  The integer parts of the binary and of the decimal logarithm of \<open>a / b\<close>, for positive
  \<open>a\<close> and \<open>b\<close>: the difference of the lengths, or one less.
\<close>

definition floor_log2 :: "int \<Rightarrow> int \<Rightarrow> int" where
  "floor_log2 a b =
     (let l = bit_length a - bit_length b
      in if shift b l \<le> shift a (- l) then l else l - 1)"

definition floor_log10 :: "int \<Rightarrow> int \<Rightarrow> int" where
  "floor_log10 a b =
     (let l = decimal_length a - decimal_length b
      in if shift10 b l \<le> shift10 a (- l) then l else l - 1)"

text \<open>The integer nearest to \<open>a / b\<close>, for \<open>0 < b\<close>; a tie goes to the even one.\<close>

definition round_half_even :: "int \<Rightarrow> int \<Rightarrow> int" where
  "round_half_even a b =
     (let q = a div b; r = a mod b
      in if 2 * r < b then q else if b < 2 * r then q + 1 else if even q then q else q + 1)"

text \<open>
  The Number nearest to \<open>(a / b) * 2 ^ e\<close>, for \<open>0 < b\<close> (round to nearest, ties to
  even): with \<open>f\<close> the integer part of the binary logarithm of its magnitude, the value
  is rounded to a multiple of \<open>2 ^ (f - 52)\<close>, which leaves 53 significant bits, or of
  \<open>2 ^ - 1074\<close> when that is coarser (the subnormal range); a magnitude of \<open>2 ^ 1024\<close> or
  more after rounding overflows to an infinity.
\<close>

definition to_double :: "int \<Rightarrow> int \<Rightarrow> int \<Rightarrow> number" where
  "to_double a b e =
     (if a = 0 then Finite 0 0
      else
        let f = floor_log2 \<bar>a\<bar> b + e;
            t = max (f - 52) (- 1074);
            q = round_half_even (shift a (e - t)) (shift b (t - e))
        in if 2 ^ 1024 \<le> shift \<bar>q\<bar> t
           then (if 0 < a then PosInfinity else NegInfinity)
           else Finite q t)"


text \<open>
  \<open>x / y\<close>. On a zero divisor the result takes the sign of \<open>x\<close>, as for the positive
  zero; \<open>onProgress\<close> divides by a positive Number only.
\<close>

definition Number_div :: "number \<Rightarrow> number \<Rightarrow> number" where
  "Number_div x y =
     (case x of
        NaN \<Rightarrow> NaN
      | PosInfinity \<Rightarrow>
          (case y of Finite n f \<Rightarrow> if n < 0 then NegInfinity else PosInfinity | _ \<Rightarrow> NaN)
      | NegInfinity \<Rightarrow>
          (case y of Finite n f \<Rightarrow> if n < 0 then PosInfinity else NegInfinity | _ \<Rightarrow> NaN)
      | Finite m e \<Rightarrow>
          (case y of
             NaN \<Rightarrow> NaN
           | PosInfinity \<Rightarrow> Finite 0 0
           | NegInfinity \<Rightarrow> Finite 0 0
           | Finite n f \<Rightarrow>
               if 0 < n then to_double m n (e - f)
               else if n < 0 then to_double (- m) (- n) (e - f)
               else if m = 0 then NaN
               else if 0 < m then PosInfinity else NegInfinity))"

text \<open>\<open>x * k\<close> for an integer literal \<open>k\<close>.\<close>

definition Number_mul :: "number \<Rightarrow> int \<Rightarrow> number" where
  "Number_mul x k =
     (case x of
        NaN \<Rightarrow> NaN
      | PosInfinity \<Rightarrow> if 0 < k then PosInfinity else if k < 0 then NegInfinity else NaN
      | NegInfinity \<Rightarrow> if 0 < k then NegInfinity else if k < 0 then PosInfinity else NaN
      | Finite m e \<Rightarrow> to_double (m * k) 1 e)"

text \<open>
  \<open>Math.round(x)\<close>: the integer part of \<open>x + 1/2\<close>, taken exactly; the result is an
  integer \<open>Finite n 0\<close>.
\<close>

definition Math_round :: "number \<Rightarrow> number" where
  "Math_round x =
     (case x of
        Finite m e \<Rightarrow>
          Finite (if 0 \<le> e then shift m e
                  else (2 * m + 2 ^ nat (- e)) div 2 ^ (nat (- e) + 1)) 0
      | _ \<Rightarrow> x)"

subsection \<open>The string of a Number\<close>

text \<open>
  A template literal turns a Number into a string by \<open>Number::toString\<close>: for a positive
  finite value \<open>v\<close>, the integers \<open>n\<close>, \<open>k\<close> and \<open>s\<close> with \<open>k\<close> as small as possible such that
  \<open>s\<close> has \<open>k\<close> decimal digits and \<open>s * 10 ^ (n - k)\<close> is a decimal that the Number \<open>v\<close>
  is nearest to; among several \<open>s\<close> the one nearest to \<open>v\<close>. The digits of \<open>s\<close> are then
  laid out with zeros, a decimal point or an exponent, depending on \<open>n\<close>.
\<close>

function digits :: "int \<Rightarrow> string" where
  "digits n =
     (if n < 10 then [''0123456789'' ! nat n]
      else digits (n div 10) @ [''0123456789'' ! nat (n mod 10)])"
  by pat_completeness auto
termination
  by (relation "measure nat") auto

declare digits.simps [simp del]

definition same_value :: "number \<Rightarrow> int \<Rightarrow> int \<Rightarrow> bool" where
  "same_value x m e =
     (case x of Finite q t \<Rightarrow> shift q (t - e) = shift m (e - t) | _ \<Rightarrow> False)"

text \<open>
  The \<open>s\<close> of \<open>k\<close> digits with \<open>s * 10 ^ (n - k)\<close> next to \<open>v = m * 2 ^ e\<close> (the one below
  and the one above) that read back as \<open>v\<close>, each with its \<open>n\<close>.
\<close>

definition candidates :: "int \<Rightarrow> int \<Rightarrow> int \<Rightarrow> int \<Rightarrow> (int \<times> int) list" where
  "candidates m e k n =
     (let up = 10 ^ nat (n - k); dn = 10 ^ nat (k - n);
          lo = (shift m e * dn) div (shift 1 (- e) * up)
      in map (\<lambda>s. (s, n))
           (filter (\<lambda>s. 10 ^ nat (k - 1) \<le> s \<and> s < 10 ^ nat k
                         \<and> same_value (to_double (s * up) dn 0) m e)
              [lo, lo + 1]))"

text \<open>
  Whether the decimal of the first candidate is nearer to \<open>v\<close> than the one of the
  second; at the same distance the even \<open>s\<close> is preferred.
\<close>

definition nearer :: "int \<Rightarrow> int \<Rightarrow> int \<Rightarrow> int \<times> int \<Rightarrow> int \<times> int \<Rightarrow> bool" where
  "nearer m e k c1 c2 =
     (case c1 of (s1, n1) \<Rightarrow> case c2 of (s2, n2) \<Rightarrow>
        let a = shift m e; b = shift 1 (- e);
            d1 = \<bar>shift10 s1 (n1 - k) * b - a * shift10 1 (k - n1)\<bar> * shift10 1 (k - n2);
            d2 = \<bar>shift10 s2 (n2 - k) * b - a * shift10 1 (k - n2)\<bar> * shift10 1 (k - n1)
        in d1 < d2 \<or> (d1 = d2 \<and> even s1 \<and> odd s2))"

text \<open>
  The search for the least \<open>k\<close>, from \<open>k\<close> on; \<open>n\<close> is the number of integer digits of
  \<open>v\<close>, or one more when \<open>v\<close> reads back from the next power of ten. Seventeen digits
  tell every Number from its neighbours, so the search ends with a candidate.
\<close>

function shortest :: "int \<Rightarrow> int \<Rightarrow> int \<Rightarrow> int \<Rightarrow> (int \<times> int) \<times> int" where
  "shortest m e n0 k =
     (case candidates m e k n0 @ candidates m e k (n0 + 1) of
        c # cs \<Rightarrow> (fold (\<lambda>x r. if nearer m e k x r then x else r) cs c, k)
      | [] \<Rightarrow>
          if 17 \<le> k then ((shift10 (shift m e) (k - n0) div shift10 (shift 1 (- e)) (n0 - k), n0), k)
          else shortest m e n0 (k + 1))"
  by pat_completeness auto
termination
  by (relation "measure (\<lambda>(m, e, n0, k). nat (17 - k))") auto

declare shortest.simps [simp del]

text \<open>The layout of the \<open>k\<close> digits of \<open>s\<close> for the position \<open>n\<close> of the decimal point.\<close>

definition layout :: "int \<Rightarrow> int \<Rightarrow> int \<Rightarrow> string" where
  "layout s k n =
     (if k \<le> n \<and> n \<le> 21 then digits s @ replicate (nat (n - k)) CHR ''0''
      else if 0 < n \<and> n \<le> 21 then take (nat n) (digits s) @ ''.'' @ drop (nat n) (digits s)
      else if - 6 < n \<and> n \<le> 0 then ''0.'' @ replicate (nat (- n)) CHR ''0'' @ digits s
      else
        (if k = 1 then digits s else take 1 (digits s) @ ''.'' @ drop 1 (digits s))
        @ ''e'' @ (if 0 \<le> n - 1 then ''+'' else ''-'') @ digits \<bar>n - 1\<bar>)"

definition Number_toString :: "number \<Rightarrow> string" where
  "Number_toString x =
     (case x of
        NaN \<Rightarrow> ''NaN''
      | PosInfinity \<Rightarrow> ''Infinity''
      | NegInfinity \<Rightarrow> ''-Infinity''
      | Finite m e \<Rightarrow>
          if m = 0 then ''0''
          else
            (case shortest \<bar>m\<bar> e (floor_log10 (shift \<bar>m\<bar> e) (shift 1 (- e)) + 1) 1 of
               ((s, n), k) \<Rightarrow> (if m < 0 then ''-'' else []) @ layout s k n))"


subsection \<open>The hooks\<close>

text \<open>
  \<^verbatim>\<open>
  onStart: () => {
    console.log("Loading started");
    if (progressContainer) progressContainer.style.display = "block";
  },
  \<close>
\<close>

definition onStart :: "page \<Rightarrow> page" where
  "onStart ui =
     ui\<lparr>console := console ui @ [Console_log ''Loading started''],
        progressContainer :=
          map_option (\<lambda>c. c\<lparr>display := ''block''\<rparr>) (progressContainer ui)\<rparr>"



text \<open>
  \<^verbatim>\<open>
  onComplete: () => {
    console.log("Loading complete");
    if (progressText) {
      progressText.innerText = "Initializing...";
    }
  },
  onSuccess: () => {
    console.log("Loading success");
  },
  \<close>
\<close>

definition onComplete :: "page \<Rightarrow> page" where
  "onComplete ui =
     ui\<lparr>console := console ui @ [Console_log ''Loading complete''],
        progressText :=
          map_option (\<lambda>t. t\<lparr>innerText := ''Initializing...''\<rparr>) (progressText ui)\<rparr>"

definition onSuccess :: "page \<Rightarrow> page" where
  "onSuccess ui = ui\<lparr>console := console ui @ [Console_log ''Loading success'']\<rparr>"

text \<open>
  \<^verbatim>\<open>
  onFailure: (error) => {
    console.error("Loading failed", error);
    if (progressContainer) {
      progressContainer.style.display = "none";
    }
    if (progressText) {
      progressText.innerText = `Failed to load: ${error}`;
      progressText.style.color = "red";
    }
  },
  \<close>
  The error value is given by the string the template literal makes of it.
\<close>

definition onFailure :: "string \<Rightarrow> page \<Rightarrow> page" where
  "onFailure err ui =
     ui\<lparr>console := console ui @ [Console_error ''Loading failed'' err],
        progressContainer :=
          map_option (\<lambda>c. c\<lparr>display := ''none''\<rparr>) (progressContainer ui),
        progressText :=
          map_option (\<lambda>t. t\<lparr>innerText := ''Failed to load: '' @ err, color := ''red''\<rparr>)
            (progressText ui)\<rparr>"

section \<open>Properties of the cache lifecycle\<close>

subsection \<open>Reconcile deletes by name\<close>

lemma fold_caches_delete:
  "fold caches_delete ns st = filter (\<lambda>(n, c). n \<notin> set ns) st"
proof (induction ns arbitrary: st)
  case Nil
  show ?case by simp
next
  case (Cons a ns)
  show ?case
    by (simp add: Cons.IH) (auto simp: caches_delete_def intro: filter_cong)
qed

lemma on_activate_versioned:
  "on_activate (Versioned b) st =
     filter (\<lambda>(n, c). \<not> (startsWith n ''nessie-pwa-'' \<and> n \<noteq> cacheName (Versioned b))) st"
  unfolding on_activate_def revision.case fold_caches_delete caches_keys_def
  by (rule filter_cong) force+

lemma map_of_filter_key:
  "map_of (filter (\<lambda>(n, c). P n) st) k = (if P k then map_of st k else None)"
  by (induction st) auto

lemma keys_filter_key:
  "k \<in> set (caches_keys (filter (\<lambda>(n, c). P n) st)) \<longleftrightarrow> P k \<and> k \<in> set (caches_keys st)"
  by (auto simp: caches_keys_def)

text \<open>
  Claim C3. For every registry, after the \<open>activate\<close> handler of the versioned revision
  with current identity \<open>cacheName (Versioned b2)\<close> has run: no name with the prefix
  \<open>nessie-pwa-\<close> other than the current one is left in the registry, in particular not
  the identity of a superseded build \<open>b1\<close> (whenever that identity differs from the
  current one); the current store, when it was there, is still there with its entries;
  and every name without the prefix is in the registry exactly when it was before, with
  the same entries.
\<close>

theorem reconcile_cleanup:
  "(\<forall>n. startsWith n ''nessie-pwa-'' \<and> n \<noteq> cacheName (Versioned b2) \<longrightarrow>
        n \<notin> set (caches_keys (on_activate (Versioned b2) st)))
   \<and> (cacheName (Versioned b1) \<noteq> cacheName (Versioned b2) \<longrightarrow>
        cacheName (Versioned b1) \<notin> set (caches_keys (on_activate (Versioned b2) st)))
   \<and> (cacheName (Versioned b2) \<in> set (caches_keys st) \<longrightarrow>
        cacheName (Versioned b2) \<in> set (caches_keys (on_activate (Versioned b2) st)))
   \<and> map_of (on_activate (Versioned b2) st) (cacheName (Versioned b2)) =
        map_of st (cacheName (Versioned b2))
   \<and> (\<forall>n. \<not> startsWith n ''nessie-pwa-'' \<longrightarrow>
        (n \<in> set (caches_keys (on_activate (Versioned b2) st)) \<longleftrightarrow> n \<in> set (caches_keys st))
        \<and> map_of (on_activate (Versioned b2) st) n = map_of st n)"
proof -
  have ns: "startsWith (cacheName (Versioned b1)) ''nessie-pwa-''"
    by (simp add: cacheName_def startsWith_def split: option.split)
  show ?thesis
    unfolding on_activate_versioned keys_filter_key map_of_filter_key
    using ns by simp
qed

theorem reconcile_cleanup_witness:
  "''nessie-pwa-b1'' \<notin> set (caches_keys (on_activate (Versioned (Some ''b2''))
       [(''nessie-pwa-b1'', [(''./'', ''one'')]), (''other'', [(''./'', ''x'')]),
        (''nessie-pwa-b2'', [(''./'', ''two'')])]))
   \<and> ''nessie-pwa-b2'' \<in> set (caches_keys (on_activate (Versioned (Some ''b2''))
       [(''nessie-pwa-b1'', [(''./'', ''one'')]), (''other'', [(''./'', ''x'')]),
        (''nessie-pwa-b2'', [(''./'', ''two'')])]))
   \<and> map_of (on_activate (Versioned (Some ''b2''))
       [(''nessie-pwa-b1'', [(''./'', ''one'')]), (''other'', [(''./'', ''x'')]),
        (''nessie-pwa-b2'', [(''./'', ''two'')])]) ''other'' = Some [(''./'', ''x'')]"
proof -
  note T = reconcile_cleanup [of "Some ''b2''"
       "[(''nessie-pwa-b1'', [(''./'', ''one'')]), (''other'', [(''./'', ''x'')]),
        (''nessie-pwa-b2'', [(''./'', ''two'')])]" "Some ''b1''"]
  have a: "cacheName (Versioned (Some ''b1'')) = ''nessie-pwa-b1''"
    and b: "cacheName (Versioned (Some ''b2'')) = ''nessie-pwa-b2''"
    by (simp_all add: cacheName_def)
  have c: "\<not> startsWith ''other'' ''nessie-pwa-''"
    by (simp add: startsWith_def)
  have k: "''nessie-pwa-b2'' \<in> set (caches_keys
       [(''nessie-pwa-b1'', [(''./'', ''one'')]), (''other'', [(''./'', ''x'')]),
        (''nessie-pwa-b2'', [(''./'', ''two'')])])"
    by (simp add: caches_keys_def)
  from T a b have 1: "''nessie-pwa-b1'' \<notin> set (caches_keys (on_activate (Versioned (Some ''b2''))
       [(''nessie-pwa-b1'', [(''./'', ''one'')]), (''other'', [(''./'', ''x'')]),
        (''nessie-pwa-b2'', [(''./'', ''two'')])]))"
    by simp
  from T b k have 2: "''nessie-pwa-b2'' \<in> set (caches_keys (on_activate (Versioned (Some ''b2''))
       [(''nessie-pwa-b1'', [(''./'', ''one'')]), (''other'', [(''./'', ''x'')]),
        (''nessie-pwa-b2'', [(''./'', ''two'')])]))"
    by simp
  from T c have 3: "map_of (on_activate (Versioned (Some ''b2''))
       [(''nessie-pwa-b1'', [(''./'', ''one'')]), (''other'', [(''./'', ''x'')]),
        (''nessie-pwa-b2'', [(''./'', ''two'')])]) ''other'' = Some [(''./'', ''x'')]"
    by simp
  from 1 2 3 show ?thesis by blast
qed

text \<open>
  Claim C10. The \<open>activate\<close> handler of the versioned revision never deletes the store
  of the unversioned revision: the name \<open>nessie-pwa\<close> does not start with
  \<open>nessie-pwa-\<close>, so for every registry that holds it the store is still there
  afterwards, with the same entries.
\<close>

theorem reconcile_keeps_unversioned:
  "\<not> startsWith (cacheName Unversioned) ''nessie-pwa-''
   \<and> (cacheName Unversioned \<in> set (caches_keys st) \<longrightarrow>
        cacheName Unversioned \<in> set (caches_keys (on_activate (Versioned b) st)))
   \<and> map_of (on_activate (Versioned b) st) (cacheName Unversioned) =
        map_of st (cacheName Unversioned)"
proof -
  have ns: "\<not> startsWith (cacheName Unversioned) ''nessie-pwa-''"
    by (simp add: cacheName_def startsWith_def)
  show ?thesis
    unfolding on_activate_versioned keys_filter_key map_of_filter_key
    using ns by simp
qed

theorem reconcile_keeps_unversioned_witness:
  "''nessie-pwa'' \<in> set (caches_keys (on_activate (Versioned (Some ''b2''))
       [(''nessie-pwa'', [(''./'', ''zero'')]), (''nessie-pwa-b1'', [(''./'', ''one'')]),
        (''nessie-pwa-b2'', [(''./'', ''two'')])]))
   \<and> map_of (on_activate (Versioned (Some ''b2''))
       [(''nessie-pwa'', [(''./'', ''zero'')]), (''nessie-pwa-b1'', [(''./'', ''one'')]),
        (''nessie-pwa-b2'', [(''./'', ''two'')])]) ''nessie-pwa'' = Some [(''./'', ''zero'')]"
proof -
  note T = reconcile_keeps_unversioned [of
       "[(''nessie-pwa'', [(''./'', ''zero'')]), (''nessie-pwa-b1'', [(''./'', ''one'')]),
        (''nessie-pwa-b2'', [(''./'', ''two'')])]" "Some ''b2''"]
  have a: "cacheName Unversioned = ''nessie-pwa''"
    by (simp add: cacheName_def)
  have k: "''nessie-pwa'' \<in> set (caches_keys
       [(''nessie-pwa'', [(''./'', ''zero'')]), (''nessie-pwa-b1'', [(''./'', ''one'')]),
        (''nessie-pwa-b2'', [(''./'', ''two'')])])"
    by (simp add: caches_keys_def)
  from T a k show ?thesis by simp
qed

subsection \<open>Intercept looks through every store\<close>

lemma caches_match_None_iff:
  "caches_match st q = None \<longleftrightarrow> (\<forall>(n, c) \<in> set st. cache_match c q = None)"
  by (induction st) (auto split: option.splits)

lemma caches_match_first:
  assumes "map_of st name = Some c" and "cache_match c q = Some r"
    and "\<forall>(n, c') \<in> set (takeWhile (\<lambda>(n, c'). n \<noteq> name) st). cache_match c' q = None"
  shows "caches_match st q = Some r"
  using assms(1,3)
proof (induction st)
  case Nil
  then show ?case by simp
next
  case (Cons a st)
  obtain n c' where a: "a = (n, c')" by (cases a)
  show ?case
  proof (cases "n = name")
    case True
    with Cons.prems(1) a have "c' = c" by simp
    with a assms(2) show ?thesis by simp
  next
    case False
    with Cons.prems a have "map_of st name = Some c" and "cache_match c' q = None"
      and "\<forall>(n, c') \<in> set (takeWhile (\<lambda>(n, c'). n \<noteq> name) st). cache_match c' q = None"
      by simp_all
    with Cons.IH a show ?thesis by simp
  qed
qed

lemma store_lookup_hit:
  "store_lookup name st q = Some r \<Longrightarrow> caches_match st q \<noteq> None"
proof -
  assume "store_lookup name st q = Some r"
  then obtain c where c: "map_of st name = Some c" "cache_match c q = Some r"
    by (auto simp: store_lookup_def split: option.splits)
  from c(1) have "(name, c) \<in> set st"
    by (rule map_of_SomeD)
  show ?thesis
  proof
    assume "caches_match st q = None"
    then have "\<forall>(n, c) \<in> set st. cache_match c q = None"
      by (simp add: caches_match_None_iff)
    with \<open>(name, c) \<in> set st\<close> have "cache_match c q = None"
      by auto
    with c(2) show False by simp
  qed
qed

text \<open>
  Claim C1, as stated, fails: the handler asks the registry, not the current store. After
  the unversioned revision and then build \<open>b2\<close> of the versioned one have been deployed
  on an empty registry, the current store \<open>nessie-pwa-b2\<close> holds the response of build
  \<open>b2\<close> for \<open>./index.html\<close>, and the intercepted request is answered with the response
  the store \<open>nessie-pwa\<close> holds, which was created first (and which reconcile keeps).
\<close>

theorem cache_first_current_store_counterexample:
  "store_lookup (cacheName (Versioned (Some ''b2'')))
      (snd (deploy (Versioned (Some ''b2'')) (\<lambda>q. Some (''v2 of '' @ q))
         (snd (deploy Unversioned (\<lambda>q. Some (''v1 of '' @ q)) []))))
      ''./index.html'' = Some ''v2 of ./index.html''
   \<and> responded (on_fetch (\<lambda>q. None)
      (snd (deploy (Versioned (Some ''b2'')) (\<lambda>q. Some (''v2 of '' @ q))
         (snd (deploy Unversioned (\<lambda>q. Some (''v1 of '' @ q)) []))))
      ''./index.html'') = Some ''v1 of ./index.html''"
  by (simp add: store_lookup_def cacheName_def deploy_def install_event_def on_install_def
      caches_open_def caches_keys_def cache_addAll_def filesToCache_def on_activate_def
      caches_delete_def startsWith_def cache_match_def on_fetch_def)

text \<open>
  Claim C1, amended. For every request whose path has an entry in the current store, the
  intercept phase issues no network fetch, leaves the registry as it is, and returns a
  cached response: the entry of the first store, in the order of creation, that holds
  the path. That is the current store's response whenever no store created before the
  current one holds the path.
\<close>

theorem cache_first_on_hit:
  assumes "store_lookup (cacheName rv) st q = Some r"
  shows "fetched (on_fetch net st q) = []
    \<and> registry (on_fetch net st q) = st
    \<and> responded (on_fetch net st q) = caches_match st q
    \<and> caches_match st q \<noteq> None
    \<and> ((\<forall>(n, c) \<in> set (takeWhile (\<lambda>(n, c). n \<noteq> cacheName rv) st). cache_match c q = None)
         \<longrightarrow> responded (on_fetch net st q) = Some r)"
proof -
  from assms obtain c where c: "map_of st (cacheName rv) = Some c" "cache_match c q = Some r"
    by (auto simp: store_lookup_def split: option.splits)
  from assms have hit: "caches_match st q \<noteq> None"
    by (rule store_lookup_hit)
  then have f: "on_fetch net st q = \<lparr>responded = caches_match st q, fetched = [], registry = st\<rparr>"
    by (auto simp: on_fetch_def)
  have "responded (on_fetch net st q) = Some r"
    if "\<forall>(n, c) \<in> set (takeWhile (\<lambda>(n, c). n \<noteq> cacheName rv) st). cache_match c q = None"
    using caches_match_first [OF c(1) c(2) that] f by simp
  with f hit show ?thesis by simp
qed

theorem cache_first_on_hit_witness:
  "fetched (on_fetch (\<lambda>q. Some ''net'')
       [(''other'', [(''./logo.png'', ''x'')]), (''nessie-pwa-b2'', [(''./index.html'', ''two'')])]
       ''./index.html'') = []
   \<and> responded (on_fetch (\<lambda>q. Some ''net'')
       [(''other'', [(''./logo.png'', ''x'')]), (''nessie-pwa-b2'', [(''./index.html'', ''two'')])]
       ''./index.html'') = Some ''two''"
proof -
  have h: "store_lookup (cacheName (Versioned (Some ''b2'')))
       [(''other'', [(''./logo.png'', ''x'')]), (''nessie-pwa-b2'', [(''./index.html'', ''two'')])]
       ''./index.html'' = Some ''two''"
    by (simp add: store_lookup_def cacheName_def cache_match_def)
  have e: "\<forall>(n, c) \<in> set (takeWhile (\<lambda>(n, c). n \<noteq> cacheName (Versioned (Some ''b2'')))
       [(''other'', [(''./logo.png'', ''x'')]), (''nessie-pwa-b2'', [(''./index.html'', ''two'')])]).
       cache_match c ''./index.html'' = None"
    by (simp add: cacheName_def cache_match_def)
  from cache_first_on_hit [OF h, of "\<lambda>q. Some ''net''"] e show ?thesis by blast
qed

text \<open>
  Claim C2, as stated, fails for the same reason: a path that the current store does not
  hold and another store of the registry does is answered from that store, with no
  network fetch. Here build \<open>b2\<close> is deployed on a registry where another application of
  the origin keeps \<open>./logo.png\<close>.
\<close>

theorem cache_miss_current_store_counterexample:
  "store_lookup (cacheName (Versioned (Some ''b2'')))
      (snd (deploy (Versioned (Some ''b2'')) (\<lambda>q. Some (''v2 of '' @ q))
         [(''other-app'', [(''./logo.png'', ''logo'')])]))
      ''./logo.png'' = None
   \<and> fetched (on_fetch (\<lambda>q. Some (''net '' @ q))
      (snd (deploy (Versioned (Some ''b2'')) (\<lambda>q. Some (''v2 of '' @ q))
         [(''other-app'', [(''./logo.png'', ''logo'')])]))
      ''./logo.png'') = []"
  by (simp add: store_lookup_def cacheName_def deploy_def install_event_def on_install_def
      caches_open_def caches_keys_def cache_addAll_def filesToCache_def on_activate_def
      caches_delete_def startsWith_def cache_match_def on_fetch_def)

text \<open>
  Claim C2, amended. For every request whose path is absent from every store of the
  registry, the intercept phase issues exactly one network fetch, for that request,
  relays what the network answers (its failure too), and writes into no store.
\<close>

theorem cache_miss_fallthrough:
  assumes "\<forall>(n, c) \<in> set st. cache_match c q = None"
  shows "fetched (on_fetch net st q) = [q]
    \<and> responded (on_fetch net st q) = net q
    \<and> registry (on_fetch net st q) = st"
proof -
  from assms have "caches_match st q = None"
    by (simp add: caches_match_None_iff)
  then show ?thesis by (simp add: on_fetch_def)
qed

theorem cache_miss_fallthrough_witness:
  "fetched (on_fetch (\<lambda>q. Some (''net '' @ q))
       [(''nessie-pwa-b2'', [(''./index.html'', ''two'')])] ''./missing'') = [''./missing'']
   \<and> responded (on_fetch (\<lambda>q. Some (''net '' @ q))
       [(''nessie-pwa-b2'', [(''./index.html'', ''two'')])] ''./missing'') = Some ''net ./missing''"
proof -
  have h: "\<forall>(n, c) \<in> set [(''nessie-pwa-b2'', [(''./index.html'', ''two'')])].
      cache_match c ''./missing'' = None"
    by (simp add: cache_match_def)
  from cache_miss_fallthrough [OF h, of "\<lambda>q. Some (''net '' @ q)"] show ?thesis by simp
qed

subsection \<open>Provision\<close>

lemma those_map_Some:
  "those (map f xs) = Some ys \<Longrightarrow> map f xs = map Some ys"
  by (induction xs arbitrary: ys) (auto split: option.splits)

lemma those_map_None_iff:
  "those (map f xs) = None \<longleftrightarrow> (\<exists>x \<in> set xs. f x = None)"
  by (induction xs) (auto split: option.splits)

lemma map_of_cache_put:
  "map_of (cache_put q r c) = (map_of c)(q \<mapsto> r)"
  by (induction c) auto

lemma map_of_fold_cache_put:
  "map f qs = map Some rs \<Longrightarrow>
   map_of (fold (\<lambda>(q, r). cache_put q r) (zip qs rs) c) p =
     (if p \<in> set qs then f p else map_of c p)"
proof (induction qs arbitrary: rs c)
  case Nil
  then show ?case by simp
next
  case (Cons q qs)
  then obtain r rs' where rs: "rs = r # rs'" "f q = Some r" "map f qs = map Some rs'"
    by (cases rs) auto
  show ?case
    by (simp add: rs Cons.IH [OF rs(3)] map_of_cache_put)
qed

lemma map_of_store_update:
  "map_of (map (\<lambda>(n, c). if n = h then (n, g c) else (n, c)) st) k =
     (if k = h then map_option g (map_of st h) else map_of st k)"
  by (induction st) auto

lemma keys_store_update:
  "caches_keys (map (\<lambda>(n, c). if n = h then (n, g c) else (n, c)) st) = caches_keys st"
  by (induction st) (auto simp: caches_keys_def)

lemma keys_cache_addAll:
  "caches_keys (snd (cache_addAll net reqs h st)) = caches_keys st"
  by (simp add: cache_addAll_def keys_store_update split: option.split)

lemma caches_open_eq:
  "caches_open name st =
     (name, if name \<in> set (caches_keys st) then st else st @ [(name, [])])"
  by (simp add: caches_open_def)

lemma keys_on_install:
  "caches_keys (snd (on_install rv net st)) =
     (if cacheName rv \<in> set (caches_keys st) then caches_keys st
      else caches_keys st @ [cacheName rv])"
proof -
  have "caches_keys (st @ [(cacheName rv, [])]) = caches_keys st @ [cacheName rv]"
    by (simp add: caches_keys_def)
  then show ?thesis
    by (simp add: on_install_def caches_open_eq keys_cache_addAll)
qed

lemma on_install_failure:
  assumes "\<exists>p \<in> set filesToCache. net p = None"
  shows "on_install rv net st = (Inl TypeError, snd (caches_open (cacheName rv) st))"
proof -
  from assms have "those (map net filesToCache) = None"
    by (simp add: those_map_None_iff)
  then show ?thesis
    by (simp add: on_install_def caches_open_eq cache_addAll_def)
qed

lemma on_install_success:
  assumes "fst (on_install rv net st) = Inr ()" and "p \<in> set filesToCache"
  shows "store_lookup (cacheName rv) (snd (on_install rv net st)) p = net p \<and> net p \<noteq> None"
proof -
  let ?st1 = "if cacheName rv \<in> set (caches_keys st) then st else st @ [(cacheName rv, [])]"
  from assms(1) obtain rs where rs: "those (map net filesToCache) = Some rs"
    by (cases "those (map net filesToCache)")
      (auto simp: on_install_def caches_open_eq cache_addAll_def)
  then have m: "map net filesToCache = map Some rs"
    by (rule those_map_Some)
  from rs have "those (map net filesToCache) \<noteq> None" by simp
  then have "\<forall>x \<in> set filesToCache. net x \<noteq> None"
    by (simp add: those_map_None_iff)
  with assms(2) have d: "net p \<noteq> None"
    by auto
  have "cacheName rv \<in> set (caches_keys ?st1)"
    by (simp add: caches_keys_def)
  then obtain c where c: "map_of ?st1 (cacheName rv) = Some c"
    by (cases "map_of ?st1 (cacheName rv)") (auto simp: caches_keys_def map_of_eq_None_iff)
  have "snd (on_install rv net st) =
      map (\<lambda>(n, c). if n = cacheName rv
          then (n, fold (\<lambda>(q, r). cache_put q r) (zip filesToCache rs) c)
          else (n, c)) ?st1"
    using rs by (simp add: on_install_def caches_open_eq cache_addAll_def)
  then have "store_lookup (cacheName rv) (snd (on_install rv net st)) p = net p"
    using c assms(2)
    by (simp add: store_lookup_def map_of_store_update cache_match_def
        map_of_fold_cache_put [OF m])
  with d show ?thesis by simp
qed

lemma map_of_on_install_other:
  "n \<noteq> cacheName rv \<Longrightarrow> map_of (snd (on_install rv net st)) n = map_of st n"
  by (simp add: on_install_def caches_open_eq cache_addAll_def map_of_store_update
      map_add_def split: option.split)

lemma store_lookup_on_install_other:
  assumes "q \<notin> set filesToCache"
  shows "store_lookup (cacheName rv) (snd (on_install rv net st)) q =
    store_lookup (cacheName rv) st q"
proof (cases "those (map net filesToCache)")
  case None
  have "store_lookup (cacheName rv) (st @ [(cacheName rv, [])]) q = store_lookup (cacheName rv) st q"
    if "cacheName rv \<notin> set (caches_keys st)"
  proof -
    from that have "map_of st (cacheName rv) = None"
      by (simp add: caches_keys_def map_of_eq_None_iff)
    then show ?thesis
      by (simp add: store_lookup_def cache_match_def map_add_def)
  qed
  with None show ?thesis
    by (simp add: on_install_def caches_open_eq cache_addAll_def)
next
  case (Some rs)
  then have m: "map net filesToCache = map Some rs"
    by (rule those_map_Some)
  show ?thesis
  proof (cases "cacheName rv \<in> set (caches_keys st)")
    case True
    with Some assms show ?thesis
      by (simp add: on_install_def caches_open_eq cache_addAll_def store_lookup_def
          map_of_store_update cache_match_def map_of_fold_cache_put [OF m] split: option.split)
  next
    case False
    then have "map_of st (cacheName rv) = None"
      by (simp add: caches_keys_def map_of_eq_None_iff)
    with False Some assms show ?thesis
      by (simp add: on_install_def caches_open_eq cache_addAll_def store_lookup_def
          map_of_store_update cache_match_def map_of_fold_cache_put [OF m] map_add_def
          split: option.split)
  qed
qed

lemma on_install_not_success:
  assumes "fst (on_install rv net st) \<noteq> Inr ()" and "cacheName rv \<in> set (caches_keys st)"
  shows "snd (on_install rv net st) = st"
  using assms
  by (cases "those (map net filesToCache)")
    (simp_all add: on_install_def caches_open_eq cache_addAll_def)

text \<open>
  Claim C4. The identity of the versioned revision is a function of the build identifier
  alone: two installs with the same identifier (both with none: the placeholder
  \<open>development\<close>) compute the same name and use one store. After the first install the
  store of that name is in the registry; the second install opens it and adds no store
  (names that were distinct stay distinct). When the second install succeeds it has
  written the manifest into that store: every path of the manifest answers with the
  response of the second install; when it fails the registry is as the first install
  left it. Entries of other paths and every other store are as they were.
\<close>

theorem cache_identity_of_build:
  assumes "b1 = b2"
  shows "cacheName (Versioned b1) = cacheName (Versioned b2)
    \<and> (b1 = None \<longrightarrow> cacheName (Versioned b2) = ''nessie-pwa-development'')
    \<and> cacheName (Versioned b1) \<in> set (caches_keys (snd (on_install (Versioned b1) net1 st)))
    \<and> caches_keys (snd (on_install (Versioned b2) net2 (snd (on_install (Versioned b1) net1 st))))
        = caches_keys (snd (on_install (Versioned b1) net1 st))
    \<and> (distinct (caches_keys st) \<longrightarrow>
        distinct (caches_keys
          (snd (on_install (Versioned b2) net2 (snd (on_install (Versioned b1) net1 st))))))
    \<and> (fst (on_install (Versioned b2) net2 (snd (on_install (Versioned b1) net1 st))) = Inr () \<longrightarrow>
        (\<forall>p \<in> set filesToCache.
           store_lookup (cacheName (Versioned b1))
             (snd (on_install (Versioned b2) net2 (snd (on_install (Versioned b1) net1 st)))) p
           = net2 p))
    \<and> (fst (on_install (Versioned b2) net2 (snd (on_install (Versioned b1) net1 st))) \<noteq> Inr () \<longrightarrow>
        snd (on_install (Versioned b2) net2 (snd (on_install (Versioned b1) net1 st)))
          = snd (on_install (Versioned b1) net1 st))
    \<and> (\<forall>q. q \<notin> set filesToCache \<longrightarrow>
        store_lookup (cacheName (Versioned b1))
          (snd (on_install (Versioned b2) net2 (snd (on_install (Versioned b1) net1 st)))) q
        = store_lookup (cacheName (Versioned b1)) (snd (on_install (Versioned b1) net1 st)) q)
    \<and> (\<forall>n. n \<noteq> cacheName (Versioned b1) \<longrightarrow>
        map_of (snd (on_install (Versioned b2) net2 (snd (on_install (Versioned b1) net1 st)))) n
        = map_of st n)"
proof -
  let ?first = "snd (on_install (Versioned b1) net1 st)"
  let ?name = "cacheName (Versioned b1)"
  have k: "?name \<in> set (caches_keys ?first)"
    by (simp add: keys_on_install)
  have d: "distinct (caches_keys (snd (on_install (Versioned b1) net2 ?first)))"
    if "distinct (caches_keys st)"
    using that by (simp add: keys_on_install)
  have s: "store_lookup ?name (snd (on_install (Versioned b1) net2 ?first)) p = net2 p"
    if "fst (on_install (Versioned b1) net2 ?first) = Inr ()" and "p \<in> set filesToCache" for p
    using on_install_success [OF that] by simp
  have f: "snd (on_install (Versioned b1) net2 ?first) = ?first"
    if "fst (on_install (Versioned b1) net2 ?first) \<noteq> Inr ()"
    using that k by (rule on_install_not_success)
  have dev: "cacheName (Versioned None) = ''nessie-pwa-development''"
    by (simp add: cacheName_def)
  from assms k d s f dev show ?thesis
    by (simp add: keys_on_install store_lookup_on_install_other map_of_on_install_other)
qed

theorem cache_identity_of_build_witness:
  "caches_keys (snd (on_install (Versioned None) (\<lambda>q. Some (''second '' @ q))
        (snd (on_install (Versioned None) (\<lambda>q. Some (''first '' @ q))
           [(''nessie-pwa'', [(''./'', ''zero'')])]))))
      = [''nessie-pwa'', ''nessie-pwa-development'']
   \<and> store_lookup ''nessie-pwa-development''
        (snd (on_install (Versioned None) (\<lambda>q. Some (''second '' @ q))
          (snd (on_install (Versioned None) (\<lambda>q. Some (''first '' @ q))
             [(''nessie-pwa'', [(''./'', ''zero'')])]))))
        ''./nessie.js'' = Some ''second ./nessie.js''"
proof -
  have s: "fst (on_install (Versioned None) (\<lambda>q. Some (''second '' @ q))
        (snd (on_install (Versioned None) (\<lambda>q. Some (''first '' @ q))
           [(''nessie-pwa'', [(''./'', ''zero'')])]))) = Inr ()"
    by (simp add: on_install_def caches_open_def caches_keys_def cache_addAll_def
        filesToCache_def cacheName_def)
  have k: "caches_keys (snd (on_install (Versioned None) (\<lambda>q. Some (''first '' @ q))
           [(''nessie-pwa'', [(''./'', ''zero'')])])) = [''nessie-pwa'', ''nessie-pwa-development'']"
    by (simp add: on_install_def caches_open_def caches_keys_def cache_addAll_def
        filesToCache_def cacheName_def)
  have p: "''./nessie.js'' \<in> set filesToCache"
    by (simp add: filesToCache_def)
  have n: "cacheName (Versioned None) = ''nessie-pwa-development''"
    by (simp add: cacheName_def)
  note T = cache_identity_of_build [OF refl, of None "\<lambda>q. Some (''first '' @ q)"
      "[(''nessie-pwa'', [(''./'', ''zero'')])]" "\<lambda>q. Some (''second '' @ q)"]
  from T s have "\<forall>p \<in> set filesToCache.
           store_lookup (cacheName (Versioned None))
             (snd (on_install (Versioned None) (\<lambda>q. Some (''second '' @ q))
               (snd (on_install (Versioned None) (\<lambda>q. Some (''first '' @ q))
                  [(''nessie-pwa'', [(''./'', ''zero'')])])))) p
           = Some (''second '' @ p)"
    by blast
  with p have "store_lookup (cacheName (Versioned None))
             (snd (on_install (Versioned None) (\<lambda>q. Some (''second '' @ q))
               (snd (on_install (Versioned None) (\<lambda>q. Some (''first '' @ q))
                  [(''nessie-pwa'', [(''./'', ''zero'')])])))) ''./nessie.js''
           = Some (''second '' @ ''./nessie.js'')"
    by auto
  moreover from T k have "caches_keys (snd (on_install (Versioned None) (\<lambda>q. Some (''second '' @ q))
        (snd (on_install (Versioned None) (\<lambda>q. Some (''first '' @ q))
           [(''nessie-pwa'', [(''./'', ''zero'')])]))))
      = [''nessie-pwa'', ''nessie-pwa-development'']"
    by simp
  ultimately show ?thesis by (simp add: n)
qed

text \<open>
  Claim C5. When the fetch of one entry of the manifest fails, \<open>addAll\<close> rejects, so the
  promise handed to \<open>waitUntil\<close> rejects: the install fails, the worker is discarded and
  never activated. Nothing of the batch is written: the registry is the one from before,
  with the current store created empty when it did not exist, and every lookup in the
  current store answers as before.
\<close>

theorem provision_all_or_nothing:
  assumes "\<exists>p \<in> set filesToCache. net p = None"
  shows "fst (on_install rv net st) = Inl TypeError
    \<and> fst (install_event rv net st) = Redundant
    \<and> fst (deploy rv net st) = Redundant
    \<and> fst (deploy rv net st) \<noteq> Activated
    \<and> snd (deploy rv net st) =
        (if cacheName rv \<in> set (caches_keys st) then st else st @ [(cacheName rv, [])])
    \<and> (\<forall>q. store_lookup (cacheName rv) (snd (deploy rv net st)) q =
            store_lookup (cacheName rv) st q)"
proof -
  note f = on_install_failure [OF assms, of rv st]
  have e: "install_event rv net st = (Redundant, snd (caches_open (cacheName rv) st))"
    by (simp add: install_event_def f)
  have d: "deploy rv net st = (Redundant, snd (caches_open (cacheName rv) st))"
    by (simp add: deploy_def e)
  have l: "store_lookup (cacheName rv) (snd (caches_open (cacheName rv) st)) q =
      store_lookup (cacheName rv) st q" for q
  proof (cases "cacheName rv \<in> set (caches_keys st)")
    case True
    then show ?thesis by (simp add: caches_open_eq)
  next
    case False
    then have "map_of st (cacheName rv) = None"
      by (simp add: caches_keys_def map_of_eq_None_iff)
    with False show ?thesis
      by (simp add: caches_open_eq store_lookup_def cache_match_def map_add_def)
  qed
  show ?thesis
    by (simp add: f e d l) (simp add: caches_open_eq)
qed

theorem provision_all_or_nothing_witness:
  "fst (deploy (Versioned (Some ''b2''))
      (\<lambda>q. if q = ''./nessie.js'' then None else Some (''v2 of '' @ q)) []) = Redundant
   \<and> snd (deploy (Versioned (Some ''b2''))
      (\<lambda>q. if q = ''./nessie.js'' then None else Some (''v2 of '' @ q)) [])
     = [(''nessie-pwa-b2'', [])]"
proof -
  have h: "\<exists>p \<in> set filesToCache.
      (\<lambda>q. if q = ''./nessie.js'' then None else Some (''v2 of '' @ q)) p = None"
    by (simp add: filesToCache_def)
  from provision_all_or_nothing [OF h, of "Versioned (Some ''b2'')" "[]"]
  show ?thesis by (simp add: cacheName_def caches_keys_def)
qed

text \<open>
  Claim C6. After an install that succeeds, the lookup of every path of the manifest in
  the current store is defined; it is the response the network gave for the path.
\<close>

theorem provision_success:
  assumes "fst (on_install rv net st) = Inr ()"
  shows "\<forall>p \<in> set filesToCache.
      store_lookup (cacheName rv) (snd (on_install rv net st)) p \<noteq> None
      \<and> store_lookup (cacheName rv) (snd (on_install rv net st)) p = net p"
  using on_install_success [OF assms] by simp

theorem provision_success_witness:
  "store_lookup ''nessie-pwa'' (snd (on_install Unversioned (\<lambda>q. Some (''v1 of '' @ q)) []))
      ''./nessie_bg.wasm'' = Some ''v1 of ./nessie_bg.wasm''"
proof -
  have h: "fst (on_install Unversioned (\<lambda>q. Some (''v1 of '' @ q)) []) = Inr ()"
    by (simp add: on_install_def caches_open_def caches_keys_def cache_addAll_def
        filesToCache_def)
  have p: "''./nessie_bg.wasm'' \<in> set filesToCache"
    by (simp add: filesToCache_def)
  from provision_success [OF h, THEN bspec, OF p] show ?thesis
    by (simp add: cacheName_def)
qed

subsection \<open>Which phase writes\<close>

text \<open>
  Claim C7, as stated, fails: a later provision for the same identity writes the entries
  of the store that is already there. The unversioned revision has one identity for all
  deployments; its second deployment replaces the response of \<open>./index.html\<close> in the
  store the first one populated.
\<close>

theorem reprovision_overwrites_counterexample:
  "store_lookup (cacheName Unversioned)
      (snd (deploy Unversioned (\<lambda>q. Some (''v1 of '' @ q)) []))
      ''./index.html'' = Some ''v1 of ./index.html''
   \<and> store_lookup (cacheName Unversioned)
      (snd (deploy Unversioned (\<lambda>q. Some (''v2 of '' @ q))
         (snd (deploy Unversioned (\<lambda>q. Some (''v1 of '' @ q)) []))))
      ''./index.html'' = Some ''v2 of ./index.html''"
  by (simp add: store_lookup_def cacheName_def deploy_def install_event_def on_install_def
      caches_open_def caches_keys_def cache_addAll_def filesToCache_def on_activate_def
      cache_match_def)

text \<open>
  Claim C7, amended. Neither the intercept phase nor the reconcile phase changes the
  entries of a store: intercept leaves the registry as it is; reconcile only removes
  whole stores (the registry afterwards is a subsequence of the one before, each store
  that is left with the entries it had) and never the current one.
\<close>

theorem stores_only_deleted_whole:
  "registry (on_fetch net st q) = st
   \<and> subseq (on_activate rv st) st
   \<and> map_of (on_activate rv st) (cacheName rv) = map_of st (cacheName rv)"
proof (cases rv)
  case Unversioned
  then show ?thesis
    by (simp add: on_fetch_def on_activate_def split: option.split)
next
  case (Versioned b)
  then show ?thesis
    by (simp add: on_fetch_def on_activate_versioned map_of_filter_key split: option.split)
qed

section \<open>Properties of the progress hooks\<close>

subsection \<open>The arithmetic of Numbers on byte counts\<close>


lemma shift_real: "real_of_int (shift x k) = of_int x * 2 ^ nat k"
  by (simp add: shift_def)














text \<open>
  The percentage at some byte counts, and the strings of some Numbers. The quotient is
  rounded before it is multiplied: 29 of 200 gives 14, the product being the Number just
  below 14.5. A Number of \<open>2 ^ 53\<close> or more is printed with the digits that tell it from
  its neighbours, then zeros.
\<close>

lemma percent_examples:
  "Math_round (Number_mul (Number_div (Finite 50 0) (Finite 200 0)) 100) = Finite 25 0"
  "Math_round (Number_mul (Number_div (Finite 1 0) (Finite 3 0)) 100) = Finite 33 0"
  "Math_round (Number_mul (Number_div (Finite 2 0) (Finite 3 0)) 100) = Finite 67 0"
  "Math_round (Number_mul (Number_div (Finite 1 0) (Finite 200 0)) 100) = Finite 1 0"
  "Math_round (Number_mul (Number_div (Finite 29 0) (Finite 200 0)) 100) = Finite 14 0"
  "Math_round (Number_mul (Number_div (Finite 200 0) (Finite 200 0)) 100) = Finite 100 0"
  by code_simp+

lemma toString_examples:
  "Number_toString (Finite 25 0) = ''25''"
  "Number_toString (Finite 14 0) = ''14''"
  "Number_toString (Finite 100 0) = ''100''"
  "Number_toString (Finite (- 50) 0) = ''-50''"
  "Number_toString (Finite 3 (- 1)) = ''1.5''"
  "Number_toString (Number_div (Finite 0 0) PosInfinity) = ''0''"
  "Number_toString (Math_round (Number_mul (Number_div NaN (Finite 200 0)) 100)) = ''NaN''"
  "Number_toString (Math_round (Number_mul (Number_div (Finite 9007199254740991 0) (Finite 1 0)) 100))
     = ''900719925474099100''"
  by code_simp+




text \<open>
  Claim C9. After \<open>onStart()\<close>, \<open>onFailure(error)\<close> hides the progress container and
  sets the status text to \<open>Failed to load: \<close> followed by the error value, a text that
  contains it (each for the element the page has); \<open>onSuccess()\<close> after that writes to
  the console only: the three elements are as \<open>onFailure\<close> left them.
\<close>

theorem onFailure_contract:
  "(progressContainer ui \<noteq> None \<longrightarrow>
      map_option display (progressContainer (onFailure err (onStart ui))) = Some ''none'')
   \<and> (progressText ui \<noteq> None \<longrightarrow>
      map_option innerText (progressText (onFailure err (onStart ui))) =
        Some (''Failed to load: '' @ err)
      \<and> (\<exists>t. progressText (onFailure err (onStart ui)) = Some t \<and> sublist err (innerText t)))
   \<and> progressContainer (onSuccess (onFailure err (onStart ui))) =
        progressContainer (onFailure err (onStart ui))
   \<and> progressBar (onSuccess (onFailure err (onStart ui))) =
        progressBar (onFailure err (onStart ui))
   \<and> progressText (onSuccess (onFailure err (onStart ui))) =
        progressText (onFailure err (onStart ui))"
proof -
  have c: "progressContainer ui \<noteq> None \<longrightarrow>
      map_option display (progressContainer (onFailure err (onStart ui))) = Some ''none''"
    by (cases "progressContainer ui") (simp_all add: onFailure_def onStart_def)
  have s: "sublist err (''Failed to load: '' @ err)"
    by (rule suffix_imp_sublist) (rule suffixI [OF refl])
  have t: "progressText (onFailure err (onStart ui)) =
      map_option (\<lambda>t. t\<lparr>innerText := ''Failed to load: '' @ err, color := ''red''\<rparr>)
        (progressText ui)"
    by (simp add: onFailure_def onStart_def)
  have e: "progressText ui \<noteq> None \<longrightarrow>
      map_option innerText (progressText (onFailure err (onStart ui))) =
        Some (''Failed to load: '' @ err)
      \<and> (\<exists>t. progressText (onFailure err (onStart ui)) = Some t \<and> sublist err (innerText t))"
  proof (cases "progressText ui")
    case None
    then show ?thesis by simp
  next
    case (Some t0)
    have "innerText (t0\<lparr>innerText := ''Failed to load: '' @ err, color := ''red''\<rparr>) =
        ''Failed to load: '' @ err"
      by simp
    with s have "sublist err
        (innerText (t0\<lparr>innerText := ''Failed to load: '' @ err, color := ''red''\<rparr>))"
      by (simp only:)
    with Some t show ?thesis by simp
  qed
  have f: "progressContainer (onSuccess (onFailure err (onStart ui))) =
        progressContainer (onFailure err (onStart ui))"
    "progressBar (onSuccess (onFailure err (onStart ui))) =
        progressBar (onFailure err (onStart ui))"
    "progressText (onSuccess (onFailure err (onStart ui))) =
        progressText (onFailure err (onStart ui))"
    by (simp_all add: onSuccess_def)
  from c e f show ?thesis by (simp only: simp_thms)
qed

theorem onFailure_contract_witness:
  "map_option display (progressContainer (onSuccess (onFailure ''net down'' (onStart
      \<lparr>progressContainer = Some \<lparr>display = ''none'', width = [], color = [], innerText = []\<rparr>,
       progressBar = Some \<lparr>display = [], width = ''0%'', color = [], innerText = []\<rparr>,
       progressText = Some \<lparr>display = [], width = [], color = [], innerText = ''Loading...''\<rparr>,
       console = []\<rparr>)))) = Some ''none''
   \<and> map_option innerText (progressText (onSuccess (onFailure ''net down'' (onStart
      \<lparr>progressContainer = Some \<lparr>display = ''none'', width = [], color = [], innerText = []\<rparr>,
       progressBar = Some \<lparr>display = [], width = ''0%'', color = [], innerText = []\<rparr>,
       progressText = Some \<lparr>display = [], width = [], color = [], innerText = ''Loading...''\<rparr>,
       console = []\<rparr>)))) = Some ''Failed to load: net down''"
  using onFailure_contract [of
      "\<lparr>progressContainer = Some \<lparr>display = ''none'', width = [], color = [], innerText = []\<rparr>,
       progressBar = Some \<lparr>display = [], width = ''0%'', color = [], innerText = []\<rparr>,
       progressText = Some \<lparr>display = [], width = [], color = [], innerText = ''Loading...''\<rparr>,
       console = []\<rparr>" "''net down''"]
  by simp

end
